theory Spec2Isabelle
  imports Main "HOL-Library.Word"
begin

section \<open>Intrusive reference counting (ReferenceCounting.hh)\<close>

text \<open>
  The header defines the base class \<open>ReferenceCounted\<close>, which carries a 32-bit counter,
  and the smart pointer \<open>Ref<T>\<close>, which holds one raw pointer \<open>object_\<close> and keeps the
  counter of its target up to date.  A void reference points to a static sentinel object
  instead of holding a null pointer.
\<close>

subsection \<open>Data model\<close>

text \<open>
  The counter has type \<open>u32\<close>, declared in Types.hh: an unsigned integer of 32 bits,
  whose \<open>++\<close> and \<open>--\<close> wrap around.
\<close>

type_synonym u32 = "32 word"

text \<open>
  A raw pointer \<open>Object*\<close> is null, the address of the function-local static
  \<open>sentinel_\<close>, or the address of an object on the heap.  The three kinds never coincide.
\<close>

datatype ptr = Null | SentinelPtr | ObjPtr nat

text \<open>The only data member is \<open>referenceCount_\<close>, here \<open>referenceCount\<close>.\<close>

record ReferenceCounted =
  referenceCount :: u32

datatype error = PreconditionViolation | InvariantViolation | UndefinedBehaviour

text \<open>
  The program state: \<open>objects\<close> gives the objects that exist (the sentinel appears in it
  once its static initialiser has run; a deleted object disappears from it), \<open>handles\<close>
  gives the field \<open>object_\<close> of every \<open>Ref\<close> constructed so far, in order of construction
  (\<open>None\<close> once the destructor of that \<open>Ref\<close> has run), and \<open>deleted\<close> records every
  \<open>delete this\<close> executed, in order.
\<close>

record state =
  objects :: "ptr \<Rightarrow> ReferenceCounted option"
  handles :: "ptr option list"
  deleted :: "ptr list"

text \<open>
  An operation either returns a value and the new state, or stops the program at a failed
  assertion or at an access that C++ leaves undefined (a deleted object, a destructed
  \<open>Ref\<close>); the state is then the one in which the program stopped.
\<close>

datatype 'a result = Ok 'a state | Abort error state

definition seq :: "'a result \<Rightarrow> ('a \<Rightarrow> state \<Rightarrow> 'b result) \<Rightarrow> 'b result" where
  "seq r f = (case r of Ok x s \<Rightarrow> f x s | Abort e s \<Rightarrow> Abort e s)"

fun is_Ok :: "'a result \<Rightarrow> bool" where
  "is_Ok (Ok x s) = True"
| "is_Ok (Abort e s) = False"

fun final :: "'a result \<Rightarrow> state" where
  "final (Ok x s) = s"
| "final (Abort e s) = s"

fun failure :: "'a result \<Rightarrow> error option" where
  "failure (Ok x s) = None"
| "failure (Abort e s) = Some e"

fun returned :: "'a result \<Rightarrow> 'a option" where
  "returned (Ok x s) = Some x"
| "returned (Abort e s) = None"

subsection \<open>Assertions\<close>

text \<open>
  Modelled from the spec: the macros \<open>require_\<close> and \<open>verify_\<close> come from Assertions.hh,
  which is not among the sources.  The specification describes them as a precondition
  check and an invariant check that both stop the program when the condition is false
  and are never recoverable.
\<close>

definition require_macro :: "bool \<Rightarrow> state \<Rightarrow> unit result" where
  "require_macro c s = (if c then Ok () s else Abort PreconditionViolation s)"

definition verify_macro :: "bool \<Rightarrow> state \<Rightarrow> unit result" where
  "verify_macro c s = (if c then Ok () s else Abort InvariantViolation s)"

subsection \<open>class ReferenceCounted\<close>

text \<open>The private constructor \<open>ReferenceCounted(u32 rc)\<close>.\<close>

definition ReferenceCounted_rc :: "u32 \<Rightarrow> ReferenceCounted" where
  "ReferenceCounted_rc rc = \<lparr>referenceCount = rc\<rparr>"

text \<open>The public constructors \<open>ReferenceCounted()\<close> and \<open>ReferenceCounted(const ReferenceCounted&)\<close>.\<close>

definition ReferenceCounted_default :: ReferenceCounted where
  "ReferenceCounted_default = \<lparr>referenceCount = 0\<rparr>"

definition ReferenceCounted_copy :: "ReferenceCounted \<Rightarrow> ReferenceCounted" where
  "ReferenceCounted_copy other = \<lparr>referenceCount = 0\<rparr>"

text \<open>\<open>operator=\<close> has an empty body and returns \<open>*this\<close>.\<close>

definition ReferenceCounted_assign :: "ReferenceCounted \<Rightarrow> ReferenceCounted \<Rightarrow> ReferenceCounted" where
  "ReferenceCounted_assign this other = this"

definition refCount :: "ReferenceCounted \<Rightarrow> u32" where
  "refCount this = referenceCount this"

text \<open>
  \<open>sentinel()\<close> returns the address of a function-local static that is constructed with
  counter 1 the first time control passes through its declaration.
\<close>

definition sentinel :: "state \<Rightarrow> ptr \<times> state" where
  "sentinel s =
     (case objects s SentinelPtr of
        None \<Rightarrow> (SentinelPtr, s\<lparr>objects := (objects s)(SentinelPtr \<mapsto> ReferenceCounted_rc 1)\<rparr>)
      | Some x \<Rightarrow> (SentinelPtr, s))"

definition isSentinel :: "ptr \<Rightarrow> state \<Rightarrow> bool \<times> state" where
  "isSentinel object s = (let (sp, s') = sentinel s in (object = sp, s'))"

definition isNotSentinel :: "ptr \<Rightarrow> state \<Rightarrow> bool \<times> state" where
  "isNotSentinel object s = (let (sp, s') = sentinel s in (object \<noteq> sp, s'))"

text \<open>
  \<open>++p->referenceCount_\<close> and \<open>--p->referenceCount_\<close> on a raw pointer: both wrap around
  at 32 bits and yield the new value.  Going through a pointer to no existing object is
  undefined in C++ and stops the model.
\<close>

definition pre_incr :: "ptr \<Rightarrow> state \<Rightarrow> u32 result" where
  "pre_incr p s =
     (case objects s p of
        None \<Rightarrow> Abort UndefinedBehaviour s
      | Some x \<Rightarrow>
          Ok (referenceCount x + 1)
             (s\<lparr>objects := (objects s)(p \<mapsto> x\<lparr>referenceCount := referenceCount x + 1\<rparr>)\<rparr>))"

definition pre_decr :: "ptr \<Rightarrow> state \<Rightarrow> u32 result" where
  "pre_decr p s =
     (case objects s p of
        None \<Rightarrow> Abort UndefinedBehaviour s
      | Some x \<Rightarrow>
          Ok (referenceCount x - 1)
             (s\<lparr>objects := (objects s)(p \<mapsto> x\<lparr>referenceCount := referenceCount x - 1\<rparr>)\<rparr>))"

text \<open>\<open>free()\<close>: two assertions, then \<open>delete this\<close>.\<close>

definition free :: "ptr \<Rightarrow> state \<Rightarrow> unit result" where
  "free this s =
     (case objects s this of
        None \<Rightarrow> Abort UndefinedBehaviour s
      | Some x \<Rightarrow>
          seq (require_macro (referenceCount x = 0) s) (\<lambda>u s1.
            let (b, s2) = isSentinel this s1 in
            seq (verify_macro (\<not> b) s2) (\<lambda>u s3.
              Ok () (s3\<lparr>objects := (objects s3)(this := None),
                        deleted := deleted s3 @ [this]\<rparr>))))"

subsection \<open>class Ref\<close>

text \<open>
  A \<open>Ref\<close> is named by its position in \<open>handles\<close>.  \<open>object_of h s\<close> reads its field; it is
  \<open>None\<close> when no such \<open>Ref\<close> is alive.
\<close>

definition object_of :: "nat \<Rightarrow> state \<Rightarrow> ptr option" where
  "object_of h s = (if h < length (handles s) then handles s ! h else None)"

text \<open>Member initialisation \<open>object_(p)\<close> of a \<open>Ref\<close> under construction; yields its name.\<close>

definition init_object :: "ptr \<Rightarrow> state \<Rightarrow> nat \<times> state" where
  "init_object p s = (length (handles s), s\<lparr>handles := handles s @ [Some p]\<rparr>)"

text \<open>
  \<open>set\<close>, first statement and \<open>++\<close>: \<open>old = object_; ++(object_ = p)->referenceCount_\<close>.
  Yields \<open>old\<close>.
\<close>

definition set_acquire :: "nat \<Rightarrow> ptr \<Rightarrow> state \<Rightarrow> ptr result" where
  "set_acquire h p s =
     (case object_of h s of
        None \<Rightarrow> Abort UndefinedBehaviour s
      | Some old \<Rightarrow>
          seq (pre_incr p (s\<lparr>handles := (handles s)[h := Some p]\<rparr>)) (\<lambda>c s'. Ok old s'))"

text \<open>
  The release of a target, written out twice in the source (in \<open>set\<close> on \<open>old\<close> and in the
  destructor on \<open>object_\<close>):
  \<open>if (!(--q->referenceCount_)) { verify_(Object::isNotSentinel(q)); q->free(); }\<close>
\<close>

definition release :: "ptr \<Rightarrow> state \<Rightarrow> unit result" where
  "release q s =
     seq (pre_decr q s) (\<lambda>c s1.
       if c = 0 then
         (let (b, s2) = isNotSentinel q s1 in
          seq (verify_macro b s2) (\<lambda>u s3. free q s3))
       else Ok () s1)"

definition Ref_set :: "nat \<Rightarrow> ptr \<Rightarrow> state \<Rightarrow> unit result" where
  "Ref_set h p s = seq (set_acquire h p s) (\<lambda>old s'. release old s')"

text \<open>\<open>Ref()\<close>\<close>

definition Ref_default :: "state \<Rightarrow> nat result" where
  "Ref_default s =
     (let (sp, s1) = sentinel s;
          (h, s2) = init_object sp s1
      in seq (pre_incr sp s2) (\<lambda>c s3. Ok h s3))"

text \<open>\<open>explicit Ref(Object *o)\<close>\<close>

definition Ref_from_object :: "ptr \<Rightarrow> state \<Rightarrow> nat result" where
  "Ref_from_object p s =
     (let (h, s1) = init_object p s
      in seq (require_macro (p \<noteq> Null) s1) (\<lambda>u s2.
           seq (pre_incr p s2) (\<lambda>c s3. Ok h s3)))"

text \<open>\<open>Ref(const Ref &r)\<close>; the template copy constructor does the same through \<open>r._get()\<close>.\<close>

definition Ref_copy :: "nat \<Rightarrow> state \<Rightarrow> nat result" where
  "Ref_copy r s =
     (case object_of r s of
        None \<Rightarrow> Abort UndefinedBehaviour s
      | Some p \<Rightarrow>
          (let (h, s1) = init_object p s
           in seq (pre_incr p s1) (\<lambda>c s2. Ok h s2)))"

text \<open>\<open>~Ref()\<close>; afterwards the \<open>Ref\<close> is gone.\<close>

definition Ref_destroy :: "nat \<Rightarrow> state \<Rightarrow> unit result" where
  "Ref_destroy h s =
     (case object_of h s of
        None \<Rightarrow> Abort UndefinedBehaviour s
      | Some p \<Rightarrow>
          seq (release p s) (\<lambda>u s1. Ok () (s1\<lparr>handles := (handles s1)[h := None]\<rparr>)))"

text \<open>\<open>operator=(const Ref &rhs)\<close>; the template version does the same through \<open>rhs._get()\<close>.\<close>

definition Ref_assign :: "nat \<Rightarrow> nat \<Rightarrow> state \<Rightarrow> unit result" where
  "Ref_assign h rhs s =
     (case object_of rhs s of
        None \<Rightarrow> Abort UndefinedBehaviour s
      | Some p \<Rightarrow> Ref_set h p s)"

text \<open>\<open>reset()\<close>\<close>

definition Ref_reset :: "nat \<Rightarrow> state \<Rightarrow> unit result" where
  "Ref_reset h s =
     (case object_of h s of
        None \<Rightarrow> Abort UndefinedBehaviour s
      | Some p \<Rightarrow>
          (let (b, s1) = isNotSentinel p s in
           if b then
             seq (pre_decr p s1) (\<lambda>c s2.
               seq (if c = 0 then free p s2 else Ok () s2) (\<lambda>u s3.
                 let (sp, s4) = sentinel s3 in
                 seq (pre_incr sp (s4\<lparr>handles := (handles s4)[h := Some sp]\<rparr>)) (\<lambda>c' s5.
                   Ok () s5)))
           else Ok () s1))"

text \<open>\<open>operator==\<close> and \<open>operator!=\<close> compare the two raw pointers.\<close>

definition Ref_eq :: "nat \<Rightarrow> nat \<Rightarrow> state \<Rightarrow> bool result" where
  "Ref_eq h r s =
     (case (object_of h s, object_of r s) of
        (Some p, Some q) \<Rightarrow> Ok (p = q) s
      | _ \<Rightarrow> Abort UndefinedBehaviour s)"

definition Ref_neq :: "nat \<Rightarrow> nat \<Rightarrow> state \<Rightarrow> bool result" where
  "Ref_neq h r s =
     (case (object_of h s, object_of r s) of
        (Some p, Some q) \<Rightarrow> Ok (p \<noteq> q) s
      | _ \<Rightarrow> Abort UndefinedBehaviour s)"

text \<open>\<open>operator bool\<close> and \<open>operator!\<close>\<close>

definition operator_bool :: "nat \<Rightarrow> state \<Rightarrow> bool result" where
  "operator_bool h s =
     (case object_of h s of
        None \<Rightarrow> Abort UndefinedBehaviour s
      | Some p \<Rightarrow> (let (b, s1) = isNotSentinel p s in Ok b s1))"

definition operator_not :: "nat \<Rightarrow> state \<Rightarrow> bool result" where
  "operator_not h s =
     (case object_of h s of
        None \<Rightarrow> Abort UndefinedBehaviour s
      | Some p \<Rightarrow> (let (b, s1) = isSentinel p s in Ok b s1))"

text \<open>
  \<open>operator*\<close> and \<open>operator->\<close>: the first yields a reference to the target and the second
  its address, both given here by the pointer.
\<close>

definition operator_star :: "nat \<Rightarrow> state \<Rightarrow> ptr result" where
  "operator_star h s =
     (case object_of h s of
        None \<Rightarrow> Abort UndefinedBehaviour s
      | Some p \<Rightarrow>
          (let (b, s1) = isNotSentinel p s in
           seq (require_macro b s1) (\<lambda>u s2. Ok p s2)))"

definition operator_arrow :: "nat \<Rightarrow> state \<Rightarrow> ptr result" where
  "operator_arrow h s =
     (case object_of h s of
        None \<Rightarrow> Abort UndefinedBehaviour s
      | Some p \<Rightarrow>
          (let (b, s1) = isNotSentinel p s in
           seq (require_macro b s1) (\<lambda>u s2. Ok p s2)))"

text \<open>\<open>get()\<close> and \<open>_get()\<close>\<close>

definition Ref_get :: "nat \<Rightarrow> state \<Rightarrow> ptr result" where
  "Ref_get h s =
     (case object_of h s of
        None \<Rightarrow> Abort UndefinedBehaviour s
      | Some p \<Rightarrow> (let (b, s1) = isNotSentinel p s in Ok (if b then p else Null) s1))"

definition Ref__get :: "nat \<Rightarrow> state \<Rightarrow> ptr result" where
  "Ref__get h s =
     (case object_of h s of
        None \<Rightarrow> Abort UndefinedBehaviour s
      | Some p \<Rightarrow> Ok p s)"

text \<open>The free function \<open>ref(T *o)\<close> returns \<open>Ref<T>(o)\<close>.\<close>

definition ref :: "ptr \<Rightarrow> state \<Rightarrow> nat result" where
  "ref p s = Ref_from_object p s"

subsection \<open>Sequences of handle operations\<close>

datatype op = Default | FromObject ptr | Copy nat | Assign nat nat | Reset nat | Destroy nat

fun step :: "op \<Rightarrow> state \<Rightarrow> unit result" where
  "step Default s = seq (Ref_default s) (\<lambda>h s'. Ok () s')"
| "step (FromObject p) s = seq (Ref_from_object p s) (\<lambda>h s'. Ok () s')"
| "step (Copy r) s = seq (Ref_copy r s) (\<lambda>h s'. Ok () s')"
| "step (Assign h r) s = Ref_assign h r s"
| "step (Reset h) s = Ref_reset h s"
| "step (Destroy h) s = Ref_destroy h s"

fun run :: "op list \<Rightarrow> state \<Rightarrow> unit result" where
  "run [] s = Ok () s"
| "run (a # as) s = seq (step a s) (\<lambda>u s'. run as s')"

text \<open>The states a run passes through, up to the end of the list or the first failure.\<close>

fun states :: "op list \<Rightarrow> state \<Rightarrow> state list" where
  "states [] s = [s]"
| "states (a # as) s = s # (case step a s of Ok u s' \<Rightarrow> states as s' | Abort e s' \<Rightarrow> [])"

text \<open>The number of live handles whose target is \<open>p\<close>.\<close>

definition refs :: "state \<Rightarrow> ptr \<Rightarrow> nat" where
  "refs s p = count_list (handles s) (Some p)"

text \<open>The counter of the object at \<open>p\<close>, if that object exists.\<close>

definition counter :: "state \<Rightarrow> ptr \<Rightarrow> u32 option" where
  "counter s p = map_option referenceCount (objects s p)"

text \<open>
  What the counter of \<open>p\<close> has to account for: the live handles on \<open>p\<close>, and for the
  sentinel the 1 its static initialiser starts from.
\<close>

definition owners :: "state \<Rightarrow> ptr \<Rightarrow> nat" where
  "owners s p = (if p = SentinelPtr then 1 else 0) + refs s p"

text \<open>
  The counting invariant for one address: an existing object has exactly \<open>owners\<close> in its
  counter and was never deleted; an address without object has no live handle on it, and
  (unless it is the sentinel, which is never deleted) was deleted exactly once.
\<close>

definition counted :: "state \<Rightarrow> ptr \<Rightarrow> bool" where
  "counted s p =
     (case objects s p of
        Some x \<Rightarrow> unat (referenceCount x) = owners s p \<and> count_list (deleted s) p = 0
      | None \<Rightarrow> refs s p = 0 \<and> count_list (deleted s) p = (if p = SentinelPtr then 0 else 1))"

text \<open>
  An operation is applied to valid operands when the handles it names are alive and a
  constructor from a pointer is given the address of an object that exists, here the
  object numbered \<open>n\<close> or the sentinel.  Anything else is undefined in C++ (a destructed
  handle, a pointer to a deleted object) or the failed precondition of the constructor.
\<close>

fun valid_op :: "nat \<Rightarrow> state \<Rightarrow> op \<Rightarrow> bool" where
  "valid_op n s Default = True"
| "valid_op n s (FromObject p) = ((p = ObjPtr n \<or> p = SentinelPtr) \<and> objects s p \<noteq> None)"
| "valid_op n s (Copy r) = (object_of r s \<noteq> None)"
| "valid_op n s (Assign h r) = (object_of h s \<noteq> None \<and> object_of r s \<noteq> None)"
| "valid_op n s (Reset h) = (object_of h s \<noteq> None)"
| "valid_op n s (Destroy h) = (object_of h s \<noteq> None)"


text \<open>
  Every operation of a run has valid operands in the state it starts from.  Nothing is
  asked of what the operations return.
\<close>

fun valid_run :: "nat \<Rightarrow> op list \<Rightarrow> state \<Rightarrow> bool" where
  "valid_run n [] s = True"
| "valid_run n (a # as) s =
     (valid_op n s a \<and> (case step a s of Ok u s' \<Rightarrow> valid_run n as s' | Abort e s' \<Rightarrow> True))"


text \<open>Every live handle is bound to the object numbered \<open>n\<close> or is void.\<close>

definition only_on :: "nat \<Rightarrow> state \<Rightarrow> bool" where
  "only_on n s =
     (\<forall>t \<in> set (handles s). t = None \<or> t = Some (ObjPtr n) \<or> t = Some SentinelPtr)"

subsection \<open>Example states and runs\<close>

text \<open>No object, no handle; the sentinel has not been constructed yet.\<close>

definition no_objects :: state where
  "no_objects = \<lparr>objects = Map.empty, handles = [], deleted = []\<rparr>"

text \<open>One object, just created by \<open>new\<close> (counter 0), and no handle.\<close>

definition fresh_object :: state where
  "fresh_object =
     \<lparr>objects = [ObjPtr 0 \<mapsto> ReferenceCounted_default], handles = [], deleted = []\<rparr>"

text \<open>
  Handles 0 and 1 bound to the object, handle 2 void: the state after
  \<open>Ref<T> a(x); Ref<T> b(a); Ref<T> c;\<close>
\<close>

definition two_bound_one_void :: state where
  "two_bound_one_void =
     \<lparr>objects = [ObjPtr 0 \<mapsto> \<lparr>referenceCount = 2\<rparr>, SentinelPtr \<mapsto> \<lparr>referenceCount = 2\<rparr>],
      handles = [Some (ObjPtr 0), Some (ObjPtr 0), Some SentinelPtr],
      deleted = []\<rparr>"

text \<open>
  One object and three handles: bind, construct a void handle, assign, assign to itself,
  copy, reset, destruct; the assignment of the void handle to the last bound one deletes
  the object.
\<close>

definition scenario :: "op list" where
  "scenario = [FromObject (ObjPtr 0), Default, Assign 1 0, Assign 0 0, Copy 0, Reset 0,
               Destroy 2, Assign 1 0, Destroy 0, Destroy 1]"

text \<open>Void handles only: construct, copy, reset, assign, then destruct both.\<close>

definition void_scenario :: "op list" where
  "void_scenario = [Default, Copy 0, Reset 0, Assign 1 0, Destroy 0, Destroy 1]"

section \<open>Auxiliary facts\<close>

lemma count_list_update:
  assumes "i < length xs"
  shows "count_list (xs[i := v]) y + (if xs ! i = y then 1 else 0) =
         count_list xs y + (if v = y then 1 else 0)"
proof -
  have "count_list (xs[i := v]) y =
        count_list (take i xs) y + (if v = y then 1 else 0) + count_list (drop (Suc i) xs) y"
    using assms by (simp add: upd_conv_take_nth_drop)
  moreover have "count_list xs y =
        count_list (take i xs) y + (if xs ! i = y then 1 else 0) + count_list (drop (Suc i) xs) y"
    using assms id_take_nth_drop[of i xs] count_list_append[of "take i xs" "xs ! i # drop (Suc i) xs" y]
    by simp
  ultimately show ?thesis by simp
qed

lemma count_list_nth_pos: "i < length xs \<Longrightarrow> xs ! i = y \<Longrightarrow> 0 < count_list xs y"
  by (metis count_list_0_iff gr0I nth_mem)

lemma unat_pred: "0 < unat (c::u32) \<Longrightarrow> unat (c - 1) = unat c - 1"
  by (simp add: unat_minus_one unat_gt_0)

lemma unat_succ: "unat (c::u32) + 1 < 2 ^ 32 \<Longrightarrow> unat (c + 1) = unat c + 1"
  by (simp add: unat_add_lem[THEN iffD1])

lemma unat_one_iff: "unat (c::u32) = Suc 0 \<longleftrightarrow> c = 1"
  by (metis unat_1 One_nat_def word_unat_eq_iff)

lemma object_ofD: "object_of h s = Some q \<Longrightarrow> h < length (handles s) \<and> handles s ! h = Some q"
  by (auto simp: object_of_def split: if_splits)

lemma refs_pos: "object_of h s = Some p \<Longrightarrow> 0 < refs s p"
  by (auto simp: object_of_def refs_def count_list_nth_pos split: if_splits)

lemmas prims = seq_def require_macro_def verify_macro_def sentinel_def isSentinel_def
  isNotSentinel_def pre_incr_def pre_decr_def free_def init_object_def release_def
  set_acquire_def Ref_set_def ReferenceCounted_rc_def

subsection \<open>Every operation keeps the counting invariant\<close>

lemma default_counted:
  assumes "counted s p" "Ref_default s = Ok k s'" "owners s' p < 2 ^ 32"
  shows "counted s' p"
  using assms
  by (auto simp: Ref_default_def prims counted_def owners_def refs_def unat_succ
        split: option.splits if_splits)

lemma from_object_counted:
  assumes "counted s p" "Ref_from_object q s = Ok k s'" "owners s' p < 2 ^ 32"
  shows "counted s' p"
  using assms
  by (auto simp: Ref_from_object_def prims counted_def owners_def refs_def unat_succ
        split: option.splits if_splits)

lemma copy_counted:
  assumes "counted s p" "Ref_copy r s = Ok k s'" "owners s' p < 2 ^ 32"
  shows "counted s' p"
  using assms
  by (auto simp: Ref_copy_def prims counted_def owners_def refs_def unat_succ
        split: option.splits if_splits)

lemma destroy_counted:
  assumes "counted s p" "Ref_destroy h s = Ok u s'"
  shows "counted s' p"
proof -
  from assms(2) obtain q where q: "object_of h s = Some q"
    by (auto simp: Ref_destroy_def split: option.splits)
  note h = object_ofD[OF q]
  note u = count_list_update[of h "handles s" None "Some p"]
    count_list_nth_pos[of h "handles s" "Some q"]
  show ?thesis
    using assms q h u
    by (auto simp: Ref_destroy_def prims counted_def owners_def refs_def unat_pred
        split: option.splits if_splits)
qed

lemma assign_counted:
  assumes "counted s p" "Ref_assign h r s = Ok u s'" "owners s' p < 2 ^ 32"
  shows "counted s' p"
proof -
  from assms(2) obtain q where q: "object_of r s = Some q"
    by (auto simp: Ref_assign_def split: option.splits)
  from assms(2) q obtain old where old: "object_of h s = Some old"
    by (auto simp: Ref_assign_def Ref_set_def set_acquire_def seq_def split: option.splits)
  note hq = object_ofD[OF q] and ho = object_ofD[OF old]
  note u = count_list_update[of h "handles s" "Some q" "Some p"]
    count_list_nth_pos[of h "handles s" "Some old"] count_list_nth_pos[of r "handles s" "Some q"]
  show ?thesis
    using assms q old hq ho u
    by (auto simp: Ref_assign_def prims counted_def owners_def refs_def unat_succ unat_pred
        split: option.splits if_splits)
qed

lemma reset_counted:
  assumes "counted s p" "Ref_reset h s = Ok u s'" "owners s' p < 2 ^ 32"
  shows "counted s' p"
proof -
  from assms(2) obtain old where old: "object_of h s = Some old"
    by (auto simp: Ref_reset_def split: option.splits)
  note ho = object_ofD[OF old]
  note u = count_list_update[of h "handles s" "Some SentinelPtr" "Some p"]
    count_list_nth_pos[of h "handles s" "Some old"]
  show ?thesis
    using assms old ho u
    by (auto simp: Ref_reset_def prims counted_def owners_def refs_def unat_succ unat_pred
        split: option.splits if_splits)
qed

lemma step_counted:
  assumes "counted s p" "step a s = Ok u s'" "owners s' p < 2 ^ 32"
  shows "counted s' p"
proof (cases a)
  case Default
  with assms show ?thesis
    by (auto simp: seq_def split: result.splits intro: default_counted)
next
  case (FromObject q)
  with assms show ?thesis
    by (auto simp: seq_def split: result.splits intro: from_object_counted)
next
  case (Copy r)
  with assms show ?thesis
    by (auto simp: seq_def split: result.splits intro: copy_counted)
next
  case (Assign h r)
  with assms show ?thesis by (auto intro: assign_counted)
next
  case (Reset h)
  with assms show ?thesis by (auto intro: reset_counted)
next
  case (Destroy h)
  with assms show ?thesis by (auto intro: destroy_counted)
qed

subsection \<open>Releasing the last handle deletes the object\<close>

lemma step_last_ref:
  assumes "counted s (ObjPtr n)" "step a s = Ok u s'"
    "0 < refs s (ObjPtr n)" "refs s' (ObjPtr n) = 0"
  shows "objects s (ObjPtr n) \<noteq> None \<and> objects s' (ObjPtr n) = None \<and>
         deleted s' = deleted s @ [ObjPtr n]"
proof (cases a)
  case Default
  with assms show ?thesis
    by (auto simp: Ref_default_def prims counted_def owners_def refs_def
        split: option.splits if_splits)
next
  case (FromObject q)
  with assms show ?thesis
    by (auto simp: Ref_from_object_def prims counted_def owners_def refs_def
        split: option.splits if_splits)
next
  case (Copy r)
  with assms show ?thesis
    by (auto simp: Ref_copy_def prims counted_def owners_def refs_def
        split: option.splits if_splits)
next
  case (Assign h r)
  with assms(2) obtain q where q: "object_of r s = Some q"
    by (auto simp: Ref_assign_def split: option.splits)
  from assms(2) q Assign obtain old where old: "object_of h s = Some old"
    by (auto simp: Ref_assign_def Ref_set_def set_acquire_def seq_def split: option.splits)
  note hq = object_ofD[OF q] and ho = object_ofD[OF old]
  note u = count_list_update[of h "handles s" "Some q" "Some (ObjPtr n)"]
    count_list_nth_pos[of h "handles s" "Some old"] count_list_nth_pos[of r "handles s" "Some q"]
  show ?thesis
    using assms Assign q old hq ho u
    by (auto simp: Ref_assign_def prims counted_def owners_def refs_def unat_pred unat_one_iff[symmetric]
        split: option.splits if_splits)
next
  case (Reset h)
  with assms(2) obtain old where old: "object_of h s = Some old"
    by (auto simp: Ref_reset_def split: option.splits)
  note ho = object_ofD[OF old]
  note u = count_list_update[of h "handles s" "Some SentinelPtr" "Some (ObjPtr n)"]
    count_list_nth_pos[of h "handles s" "Some old"]
  show ?thesis
    using assms Reset old ho u
    by (auto simp: Ref_reset_def prims counted_def owners_def refs_def unat_pred unat_one_iff[symmetric]
        split: option.splits if_splits)
next
  case (Destroy h)
  with assms(2) obtain q where q: "object_of h s = Some q"
    by (auto simp: Ref_destroy_def split: option.splits)
  note h = object_ofD[OF q]
  note u = count_list_update[of h "handles s" None "Some (ObjPtr n)"]
    count_list_nth_pos[of h "handles s" "Some q"]
  show ?thesis
    using assms Destroy q h u
    by (auto simp: Ref_destroy_def prims counted_def owners_def refs_def unat_pred unat_one_iff[symmetric]
        split: option.splits if_splits)
qed


subsection \<open>The sentinel never reaches the deletion branch\<close>

lemma failure_seq:
  "failure (seq r f) = (case r of Ok x s \<Rightarrow> failure (f x s) | Abort e s \<Rightarrow> Some e)"
  by (cases r) (simp_all add: seq_def)

lemma release_never_invariant_violation:
  assumes "counted s SentinelPtr" "q = SentinelPtr \<longrightarrow> 0 < refs s SentinelPtr"
  shows "failure (release q s) \<noteq> Some InvariantViolation"
  using assms
  by (auto simp: prims counted_def owners_def refs_def unat_one_iff[symmetric]
      split: option.splits if_splits)

lemma release_after_incr_never_invariant_violation:
  assumes "counted s SentinelPtr" "q = SentinelPtr \<longrightarrow> 0 < refs s SentinelPtr"
    "pre_incr p (s\<lparr>handles := hs\<rparr>) = Ok c s1"
  shows "failure (release q s1) \<noteq> Some InvariantViolation"
proof (cases "p = SentinelPtr")
  case True
  with assms show ?thesis
    by (auto simp: prims counted_def owners_def refs_def
      split: option.splits if_splits)
next
  case False
  with assms show ?thesis
    by (auto simp: prims counted_def owners_def refs_def unat_one_iff[symmetric]
      split: option.splits if_splits)
qed

lemma step_never_invariant_violation:
  assumes "counted s SentinelPtr"
  shows "failure (step a s) \<noteq> Some InvariantViolation"
proof (cases a)
  case Default
  then show ?thesis
    by (auto simp: Ref_default_def prims split: option.splits if_splits)
next
  case (FromObject q)
  then show ?thesis
    by (auto simp: Ref_from_object_def prims split: option.splits if_splits)
next
  case (Copy r)
  then show ?thesis
    by (auto simp: Ref_copy_def prims split: option.splits if_splits)
next
  case (Assign h r)
  show ?thesis
  proof (cases "object_of r s")
    case None
    with Assign show ?thesis by (simp add: Ref_assign_def)
  next
    case (Some p)
    show ?thesis
    proof (cases "object_of h s")
      case None
      with Assign Some show ?thesis by (simp add: Ref_assign_def Ref_set_def set_acquire_def seq_def)
    next
      case old: (Some q)
      show ?thesis
      proof (cases "pre_incr p (s\<lparr>handles := (handles s)[h := Some p]\<rparr>)")
        case (Ok c s1)
        from release_after_incr_never_invariant_violation[OF assms _ Ok, of q] refs_pos[OF old]
        have "failure (release q s1) \<noteq> Some InvariantViolation" by auto
        with Assign Some old Ok show ?thesis
          by (simp add: Ref_assign_def Ref_set_def set_acquire_def seq_def)
      next
        case (Abort e s1)
        then have "e = UndefinedBehaviour"
          by (auto simp: pre_incr_def split: option.splits)
        with Assign Some old Abort show ?thesis
          by (simp add: Ref_assign_def Ref_set_def set_acquire_def seq_def)
      qed
    qed
  qed
next
  case (Reset h)
  then show ?thesis
    by (auto simp: Ref_reset_def prims split: option.splits if_splits)
next
  case (Destroy h)
  show ?thesis
  proof (cases "object_of h s")
    case None
    with Destroy show ?thesis by (simp add: Ref_destroy_def)
  next
    case (Some q)
    from release_never_invariant_violation[OF assms, of q] refs_pos[OF Some]
    have "failure (release q s) \<noteq> Some InvariantViolation" by auto
    with Destroy Some show ?thesis
      by (cases "release q s") (simp_all add: Ref_destroy_def seq_def)
  qed
qed

subsection \<open>Runs\<close>

lemma states_nonempty: "states ops s \<noteq> []"
  by (cases ops) simp_all

lemma hd_states: "hd (states ops s) = s"
  by (cases ops) simp_all

lemma states_invariant:
  assumes "counted s0 p" "\<forall>s \<in> set (states ops s0). owners s p < 2 ^ 32"
  shows "\<forall>s \<in> set (states ops s0). counted s p"
  using assms
proof (induction ops arbitrary: s0)
  case Nil
  then show ?case by simp
next
  case (Cons a as)
  show ?case
  proof (cases "step a s0")
    case (Ok u s1)
    have "s1 \<in> set (states as s1)"
      using hd_states[of as s1] states_nonempty[of as s1] by (metis list.set_sel(1))
    with Cons.prems Ok have "owners s1 p < 2 ^ 32" by simp
    with Cons.prems(1) Ok have "counted s1 p" by (rule step_counted)
    with Cons.IH[of s1] Cons.prems Ok show ?thesis by simp
  next
    case (Abort e s1)
    with Cons.prems show ?thesis by simp
  qed
qed

lemma run_append: "run (as @ bs) s = seq (run as s) (\<lambda>u s'. run bs s')"
  by (induction as arbitrary: s) (auto simp: seq_def split: result.splits)

subsection \<open>Operations on valid operands return\<close>

lemma list_update_same: "xs ! i = v \<Longrightarrow> xs[i := v] = xs"
  by (metis list_update_id)

lemma step_handles:
  assumes "step a s = Ok u s'"
  shows "handles s' =
     (case a of
        Default \<Rightarrow> handles s @ [Some SentinelPtr]
      | FromObject p \<Rightarrow> handles s @ [Some p]
      | Copy r \<Rightarrow> handles s @ [handles s ! r]
      | Assign h r \<Rightarrow> (handles s)[h := handles s ! r]
      | Reset h \<Rightarrow> (handles s)[h := Some SentinelPtr]
      | Destroy h \<Rightarrow> (handles s)[h := None])"
proof (cases a)
  case Default
  with assms show ?thesis
    by (auto simp: Ref_default_def prims split: option.splits if_splits)
next
  case (FromObject p)
  with assms show ?thesis
    by (auto simp: Ref_from_object_def prims split: option.splits if_splits)
next
  case (Copy r)
  with assms show ?thesis
    by (auto simp: Ref_copy_def object_of_def prims split: option.splits if_splits)
next
  case (Assign h r)
  with assms show ?thesis
    by (auto simp: Ref_assign_def object_of_def prims split: option.splits if_splits)
next
  case (Reset h)
  with assms show ?thesis
    by (auto simp: Ref_reset_def object_of_def prims list_update_same split: option.splits if_splits)
next
  case (Destroy h)
  with assms show ?thesis
    by (auto simp: Ref_destroy_def object_of_def prims split: option.splits if_splits)
qed

lemma step_only_on:
  assumes "only_on n s" "valid_op n s a" "step a s = Ok u s'"
  shows "only_on n s'"
proof -
  let ?ok = "\<lambda>t. t = None \<or> t = Some (ObjPtr n) \<or> t = Some SentinelPtr"
  have old: "\<forall>t \<in> set (handles s). ?ok t"
    using assms(1) by (simp add: only_on_def)
  have upd: "\<forall>t \<in> set ((handles s)[h := v]). ?ok t" if "?ok v" for h v
    using old that set_update_subset_insert[of "handles s" h v] by blast
  have nth: "?ok (handles s ! r)" if "object_of r s \<noteq> None" for r
    using old that by (auto simp: object_of_def split: if_splits)
  note hs = step_handles[OF assms(3)]
  show ?thesis
  proof (cases a)
    case Default
    with hs old show ?thesis by (auto simp: only_on_def)
  next
    case (FromObject p)
    with hs old assms(2) show ?thesis by (auto simp: only_on_def)
  next
    case (Copy r)
    with hs old assms(2) nth[of r] show ?thesis by (auto simp: only_on_def)
  next
    case (Assign h r)
    with assms(2) have "?ok (handles s ! r)" by (intro nth) simp
    from upd[OF this, of h] hs Assign show ?thesis by (simp add: only_on_def)
  next
    case (Reset h)
    with hs upd[of "Some SentinelPtr" h] show ?thesis by (simp add: only_on_def)
  next
    case (Destroy h)
    with hs upd[of None h] show ?thesis by (simp add: only_on_def)
  qed
qed

lemma counted_exists: "counted s p \<Longrightarrow> object_of h s = Some p \<Longrightarrow> objects s p \<noteq> None"
  using refs_pos[of h s p] by (auto simp: counted_def split: option.splits)

lemma only_on_target:
  assumes "only_on n s" "object_of h s = Some p"
  shows "p = ObjPtr n \<or> p = SentinelPtr"
proof -
  from object_ofD[OF assms(2)] have "Some p \<in> set (handles s)"
    using nth_mem[of h "handles s"] by simp
  with assms(1) show ?thesis by (auto simp: only_on_def)
qed

lemma step_failure_cases:
  assumes ex: "\<And>h p. object_of h s = Some p \<Longrightarrow> objects s p \<noteq> None"
    and v: "valid_op n s a"
  shows "failure (step a s) = None \<or> failure (step a s) = Some InvariantViolation"
proof (cases a)
  case Default
  then show ?thesis
    by (auto simp: Ref_default_def prims split: option.splits if_splits)
next
  case (FromObject p)
  with v show ?thesis
    by (auto simp: Ref_from_object_def prims split: option.splits if_splits)
next
  case (Copy r)
  with v ex[of r] show ?thesis
    by (auto simp: Ref_copy_def prims split: option.splits if_splits)
next
  case (Assign h r)
  with v ex[of r] ex[of h] show ?thesis
    by (auto simp: Ref_assign_def prims split: option.splits if_splits)
next
  case (Reset h)
  with v ex[of h] show ?thesis
    by (auto simp: Ref_reset_def prims split: option.splits if_splits)
next
  case (Destroy h)
  with v ex[of h] show ?thesis
    by (auto simp: Ref_destroy_def prims split: option.splits if_splits)
qed

lemma step_progress:
  assumes "counted s (ObjPtr n)" "counted s SentinelPtr" "only_on n s" "valid_op n s a"
  shows "is_Ok (step a s)"
proof -
  have ex: "objects s p \<noteq> None" if "object_of h s = Some p" for h p
    using only_on_target[OF assms(3) that] assms(1,2) counted_exists[OF _ that] by auto
  from step_failure_cases[OF ex assms(4)] step_never_invariant_violation[OF assms(2), of a]
  have "failure (step a s) = None" by auto
  then show ?thesis by (cases "step a s") simp_all
qed

subsection \<open>Constructing many handles on one target\<close>

lemmas ops_defs = Ref_default_def Ref_from_object_def Ref_copy_def Ref_destroy_def Ref_assign_def
  Ref_reset_def object_of_def

lemma count_list_replicate: "count_list (replicate k x) y = (if x = y then k else 0)"
  by (induction k) auto

lemma step_Copy:
  assumes "object_of r s = Some p" "objects s p = Some x"
  shows "step (Copy r) s =
     Ok () (s\<lparr>objects := (objects s)(p \<mapsto> x\<lparr>referenceCount := referenceCount x + 1\<rparr>),
              handles := handles s @ [Some p]\<rparr>)"
  using assms by (simp add: Ref_copy_def prims)

lemma run_replicate_Copy:
  assumes "object_of r s = Some p" "objects s p = Some x"
  shows "run (replicate k (Copy r)) s =
     Ok () (s\<lparr>objects := (objects s)(p \<mapsto> x\<lparr>referenceCount := referenceCount x + of_nat k\<rparr>),
              handles := handles s @ replicate k (Some p)\<rparr>)"
  using assms
proof (induction k arbitrary: s x)
  case 0
  then show ?case by (simp add: fun_upd_idem)
next
  case (Suc k)
  let ?s1 = "s\<lparr>objects := (objects s)(p \<mapsto> x\<lparr>referenceCount := referenceCount x + 1\<rparr>),
              handles := handles s @ [Some p]\<rparr>"
  have 1: "object_of r ?s1 = Some p"
    using Suc.prems(1) by (auto simp: object_of_def nth_append split: if_splits)
  let ?x1 = "x\<lparr>referenceCount := referenceCount x + 1\<rparr>"
  have 2: "objects ?s1 p = Some ?x1" by simp
  have "run (replicate (Suc k) (Copy r)) s = run (replicate k (Copy r)) ?s1"
    using step_Copy[OF Suc.prems] by (simp add: seq_def)
  also have "\<dots> = Ok () (?s1\<lparr>objects := (objects ?s1)(p \<mapsto> ?x1\<lparr>referenceCount := referenceCount ?x1 + of_nat k\<rparr>),
              handles := handles ?s1 @ replicate k (Some p)\<rparr>)"
    by (rule Suc.IH[OF 1 2])
  also have "\<dots> = Ok () (s\<lparr>objects := (objects s)(p \<mapsto> x\<lparr>referenceCount := referenceCount x + of_nat (Suc k)\<rparr>),
              handles := handles s @ replicate (Suc k) (Some p)\<rparr>)"
    by (simp add: replicate_app_Cons_same add.assoc)
  finally show ?case .
qed

lemma step_Default:
  assumes "objects s SentinelPtr = Some x"
  shows "step Default s =
     Ok () (s\<lparr>objects := (objects s)(SentinelPtr \<mapsto> x\<lparr>referenceCount := referenceCount x + 1\<rparr>),
              handles := handles s @ [Some SentinelPtr]\<rparr>)"
  using assms by (simp add: Ref_default_def prims)

lemma run_replicate_Default:
  assumes "objects s SentinelPtr = Some x"
  shows "run (replicate k Default) s =
     Ok () (s\<lparr>objects := (objects s)(SentinelPtr \<mapsto> x\<lparr>referenceCount := referenceCount x + of_nat k\<rparr>),
              handles := handles s @ replicate k (Some SentinelPtr)\<rparr>)"
  using assms
proof (induction k arbitrary: s x)
  case 0
  then show ?case by (simp add: fun_upd_idem)
next
  case (Suc k)
  let ?s1 = "s\<lparr>objects := (objects s)(SentinelPtr \<mapsto> x\<lparr>referenceCount := referenceCount x + 1\<rparr>),
              handles := handles s @ [Some SentinelPtr]\<rparr>"
  let ?x1 = "x\<lparr>referenceCount := referenceCount x + 1\<rparr>"
  have 2: "objects ?s1 SentinelPtr = Some ?x1" by simp
  have "run (replicate (Suc k) Default) s = run (replicate k Default) ?s1"
    using step_Default[OF Suc.prems] by (simp add: seq_def)
  also have "\<dots> = Ok () (?s1\<lparr>objects := (objects ?s1)(SentinelPtr \<mapsto> ?x1\<lparr>referenceCount := referenceCount ?x1 + of_nat k\<rparr>),
              handles := handles ?s1 @ replicate k (Some SentinelPtr)\<rparr>)"
    by (rule Suc.IH[OF 2])
  also have "\<dots> = Ok () (s\<lparr>objects := (objects s)(SentinelPtr \<mapsto> x\<lparr>referenceCount := referenceCount x + of_nat (Suc k)\<rparr>),
              handles := handles s @ replicate (Suc k) (Some SentinelPtr)\<rparr>)"
    by (simp add: replicate_app_Cons_same add.assoc)
  finally show ?case .
qed

subsection \<open>The example states\<close>

lemmas examples = no_objects_def fresh_object_def two_bound_one_void_def scenario_def
  void_scenario_def ReferenceCounted_default_def

lemma two_bound_one_void_reached:
  "run [FromObject (ObjPtr 0), Copy 0, Default] fresh_object = Ok () two_bound_one_void"
  by (simp add: examples ops_defs prims fun_upd_twist)

lemma many_copies:
  "run (FromObject (ObjPtr 0) # replicate k (Copy 0)) fresh_object =
     Ok () \<lparr>objects = [ObjPtr 0 \<mapsto> \<lparr>referenceCount = 1 + of_nat k\<rparr>],
            handles = Some (ObjPtr 0) # replicate k (Some (ObjPtr 0)),
            deleted = []\<rparr>"
proof -
  let ?s1 = "\<lparr>objects = [ObjPtr 0 \<mapsto> \<lparr>referenceCount = 1\<rparr>], handles = [Some (ObjPtr 0)], deleted = []\<rparr>"
  have 1: "step (FromObject (ObjPtr 0)) fresh_object = Ok () ?s1"
    by (simp add: examples Ref_from_object_def prims)
  have 2: "object_of 0 ?s1 = Some (ObjPtr 0)" by (simp add: object_of_def)
  have 3: "objects ?s1 (ObjPtr 0) = Some \<lparr>referenceCount = 1\<rparr>" by simp
  show ?thesis
    using run_replicate_Copy[OF 2 3, of k] 1 by (simp add: seq_def)
qed

lemma many_defaults:
  "run (replicate (Suc k) Default) no_objects =
     Ok () \<lparr>objects = [SentinelPtr \<mapsto> \<lparr>referenceCount = 2 + of_nat k\<rparr>],
            handles = Some SentinelPtr # replicate k (Some SentinelPtr),
            deleted = []\<rparr>"
proof -
  let ?s1 = "\<lparr>objects = [SentinelPtr \<mapsto> \<lparr>referenceCount = 2\<rparr>], handles = [Some SentinelPtr], deleted = []\<rparr>"
  have 1: "step Default no_objects = Ok () ?s1"
    by (simp add: examples Ref_default_def prims)
  have 3: "objects ?s1 SentinelPtr = Some \<lparr>referenceCount = 2\<rparr>" by simp
  show ?thesis
    using run_replicate_Default[OF 3, of k] 1 by (simp add: seq_def)
qed

lemma Suc_numerals: "4294967295 = Suc 4294967294" "4294967296 = Suc 4294967295"
  by simp_all

section \<open>The claims\<close>

text \<open>
  C1 (with bounds on the numbers of handles).  Take one heap object and a state in which
  every live handle is bound to it or void and the counting invariant holds for it and
  for the sentinel (for instance an object just created, with counter 0, and no handle).
  Take any finite sequence of default constructions, constructions from a pointer, copy
  constructions, assignments, resets and destructions, each applied to live handles and,
  for a construction from a pointer, to the object while it exists or to the sentinel.
  If in every state the run passes through fewer than \<open>2^32\<close> live handles are bound to
  the object and fewer than \<open>2^32 - 1\<close> are void, then every operation returns, so the run
  reaches its end, and in every state on the way the invariant holds for the object:
  while it exists its counter equals the number of live handles bound to it and it has
  not been deleted; once it is gone no live handle is bound to it and it was deleted
  exactly once.  Moreover every operation that takes the number of live handles bound to
  the object from positive to zero deletes the object in that very step.
\<close>

theorem counter_tracks_live_handles:
  assumes "counted s0 (ObjPtr n)" and "counted s0 SentinelPtr" and "only_on n s0"
    and "valid_run n ops s0"
    and "\<forall>s \<in> set (states ops s0). refs s (ObjPtr n) < 2 ^ 32 \<and> refs s SentinelPtr < 2 ^ 32 - 1"
  shows "run ops s0 = Ok () (last (states ops s0)) \<and>
         length (states ops s0) = Suc (length ops) \<and>
         (\<forall>s \<in> set (states ops s0). counted s (ObjPtr n)) \<and>
         successively
           (\<lambda>s s'. 0 < refs s (ObjPtr n) \<and> refs s' (ObjPtr n) = 0 \<longrightarrow>
              objects s (ObjPtr n) \<noteq> None \<and> objects s' (ObjPtr n) = None \<and>
              deleted s' = deleted s @ [ObjPtr n])
           (states ops s0)"
  using assms
proof (induction ops arbitrary: s0)
  case Nil
  then show ?case by simp
next
  case (Cons a as)
  from Cons.prems(4) have va: "valid_op n s0 a" by simp
  from step_progress[OF Cons.prems(1,2,3) va] obtain s1 where s1: "step a s0 = Ok () s1"
    by (cases "step a s0") auto
  have in1: "s1 \<in> set (states as s1)"
    using hd_states[of as s1] states_nonempty[of as s1] by (metis list.set_sel(1))
  with Cons.prems(5) s1 have cap1: "refs s1 (ObjPtr n) < 2 ^ 32" "refs s1 SentinelPtr < 2 ^ 32 - 1"
    by auto
  have "owners s1 (ObjPtr n) < 2 ^ 32" using cap1(1) by (simp add: owners_def)
  with Cons.prems(1) s1 have c1: "counted s1 (ObjPtr n)" by (rule step_counted)
  have "owners s1 SentinelPtr < 2 ^ 32" using cap1(2) by (simp add: owners_def)
  with Cons.prems(2) s1 have c2: "counted s1 SentinelPtr" by (rule step_counted)
  have o1: "only_on n s1" using Cons.prems(3) va s1 by (rule step_only_on)
  have v1: "valid_run n as s1" using Cons.prems(4) s1 by simp
  have cap: "\<forall>s \<in> set (states as s1). refs s (ObjPtr n) < 2 ^ 32 \<and> refs s SentinelPtr < 2 ^ 32 - 1"
    using Cons.prems(5) s1 by simp
  note IH = Cons.IH[OF c1 c2 o1 v1 cap]
  have st: "states (a # as) s0 = s0 # states as s1" using s1 by simp
  have r: "run (a # as) s0 = run as s1" using s1 by (simp add: seq_def)
  have l: "last (states (a # as) s0) = last (states as s1)"
    unfolding st using states_nonempty[of as s1] by simp
  have 1: "run (a # as) s0 = Ok () (last (states (a # as) s0))"
    unfolding r l using IH by blast
  have 2: "length (states (a # as) s0) = Suc (length (a # as))"
    unfolding st using IH by simp
  have 3: "\<forall>s \<in> set (states (a # as) s0). counted s (ObjPtr n)"
    unfolding st using IH Cons.prems(1) by simp
  have 4: "successively
           (\<lambda>s s'. 0 < refs s (ObjPtr n) \<and> refs s' (ObjPtr n) = 0 \<longrightarrow>
              objects s (ObjPtr n) \<noteq> None \<and> objects s' (ObjPtr n) = None \<and>
              deleted s' = deleted s @ [ObjPtr n])
           (states (a # as) s0)"
    unfolding st successively_Cons hd_states
    using IH step_last_ref[OF Cons.prems(1) s1] by blast
  from 1 2 3 4 show ?case by blast
qed

text \<open>
  A run with assignments, a self-assignment and a reset: the counter goes
  0, 1, 1, 2, 2, 3, 2, 1, and the assignment that rebinds the last bound handle deletes
  the object.
\<close>

theorem counter_tracks_live_handles_witness:
  "counted fresh_object (ObjPtr 0) \<and> counted fresh_object SentinelPtr \<and>
   only_on 0 fresh_object \<and> valid_run 0 scenario fresh_object \<and>
   list_all (\<lambda>s. refs s (ObjPtr 0) < 2 ^ 32 \<and> refs s SentinelPtr < 2 ^ 32 - 1)
     (states scenario fresh_object) \<and>
   is_Ok (run scenario fresh_object) \<and>
   list_all (\<lambda>s. counted s (ObjPtr 0)) (states scenario fresh_object) \<and>
   map (\<lambda>s. (counter s (ObjPtr 0), refs s (ObjPtr 0), refs s SentinelPtr, deleted s))
       (states scenario fresh_object) =
     [(Some 0, 0, 0, []), (Some 1, 1, 0, []), (Some 1, 1, 1, []), (Some 2, 2, 0, []),
      (Some 2, 2, 0, []), (Some 3, 3, 0, []), (Some 2, 2, 1, []), (Some 1, 1, 1, []),
      (None, 0, 2, [ObjPtr 0]), (None, 0, 1, [ObjPtr 0]), (None, 0, 0, [ObjPtr 0])]"
proof -
  have 1: "counted fresh_object (ObjPtr 0)"
    by (simp add: counted_def owners_def refs_def examples)
  have 2: "counted fresh_object SentinelPtr"
    by (simp add: counted_def owners_def refs_def examples)
  have 3: "only_on 0 fresh_object"
    by (simp add: only_on_def examples)
  have 4: "valid_run 0 scenario fresh_object"
    by (simp add: scenario_def examples ops_defs prims)
  have 5: "\<forall>s \<in> set (states scenario fresh_object).
             refs s (ObjPtr 0) < 2 ^ 32 \<and> refs s SentinelPtr < 2 ^ 32 - 1"
    by (simp add: scenario_def examples ops_defs prims refs_def)
  have 6: "map (\<lambda>s. (counter s (ObjPtr 0), refs s (ObjPtr 0), refs s SentinelPtr, deleted s))
       (states scenario fresh_object) =
     [(Some 0, 0, 0, []), (Some 1, 1, 0, []), (Some 1, 1, 1, []), (Some 2, 2, 0, []),
      (Some 2, 2, 0, []), (Some 3, 3, 0, []), (Some 2, 2, 1, []), (Some 1, 1, 1, []),
      (None, 0, 2, [ObjPtr 0]), (None, 0, 1, [ObjPtr 0]), (None, 0, 0, [ObjPtr 0])]"
    by (simp add: scenario_def examples ops_defs prims counter_def refs_def)
  from counter_tracks_live_handles[OF 1 2 3 4 5]
  have "is_Ok (run scenario fresh_object) \<and>
        (\<forall>s \<in> set (states scenario fresh_object). counted s (ObjPtr 0))"
    by simp
  with 1 2 3 4 5 6 show ?thesis by (simp add: list_all_iff)
qed

text \<open>
  C1 without the bound fails: after one construction from the object and
  \<open>2^32 - 1\<close> copy constructions the 32-bit counter has wrapped to 0 while \<open>2^32\<close> live
  handles are bound to the object; and with one more copy, destructing a single handle
  deletes the object while \<open>2^32\<close> live handles are still bound to it.
\<close>

theorem counter_tracks_live_handles_counterexample:
  "is_Ok (run (FromObject (ObjPtr 0) # replicate 4294967295 (Copy 0)) fresh_object) \<and>
   counter (final (run (FromObject (ObjPtr 0) # replicate 4294967295 (Copy 0)) fresh_object))
     (ObjPtr 0) = Some 0 \<and>
   refs (final (run (FromObject (ObjPtr 0) # replicate 4294967295 (Copy 0)) fresh_object))
     (ObjPtr 0) = 4294967296 \<and>
   is_Ok (run (FromObject (ObjPtr 0) # replicate 4294967296 (Copy 0) @ [Destroy 0]) fresh_object) \<and>
   objects (final (run (FromObject (ObjPtr 0) # replicate 4294967296 (Copy 0) @ [Destroy 0]) fresh_object))
     (ObjPtr 0) = None \<and>
   refs (final (run (FromObject (ObjPtr 0) # replicate 4294967296 (Copy 0) @ [Destroy 0]) fresh_object))
     (ObjPtr 0) = 4294967296"
proof -
  have a: "run (FromObject (ObjPtr 0) # replicate 4294967296 (Copy 0) @ [Destroy 0]) fresh_object
         = seq (run (FromObject (ObjPtr 0) # replicate 4294967296 (Copy 0)) fresh_object)
             (\<lambda>u s'. run [Destroy 0] s')"
    using run_append[of "FromObject (ObjPtr 0) # replicate 4294967296 (Copy 0)" "[Destroy 0]" fresh_object]
    by simp
  show ?thesis
    unfolding a many_copies
    by (simp add: seq_def counter_def refs_def count_list_replicate Ref_destroy_def object_of_def prims)
qed

text \<open>
  C2 (with a bound on the counter).  Let \<open>h\<close> be a live handle, void or bound, whose
  target satisfies the counting invariant.  Then the assignment \<open>h = h\<close> returns with the whole state
  unchanged, so the target pointer of \<open>h\<close> and the counter of the target are what they
  were, and that counter is not zero.  The assignment is \<open>set\<close>, which increments first
  and releases afterwards; if the counter is below \<open>2^32 - 1\<close>, the counter between the
  increment and the decrement is not zero either.
\<close>

theorem self_assignment:
  assumes "object_of h s = Some p" and "counted s p"
  shows "Ref_assign h h s = Ok () s \<and>
         Ref_assign h h s = seq (set_acquire h p s) release \<and>
         counter s p \<noteq> None \<and> counter s p \<noteq> Some 0 \<and>
         (owners s p < 2 ^ 32 - 1 \<longrightarrow>
            returned (set_acquire h p s) = Some p \<and>
            counter (final (set_acquire h p s)) p \<noteq> None \<and>
            counter (final (set_acquire h p s)) p \<noteq> Some 0)"
proof -
  note ha = object_ofD[OF assms(1)]
  from refs_pos[OF assms(1)] assms(2) obtain x where x: "objects s p = Some x"
    and c: "unat (referenceCount x) = owners s p"
    by (auto simp: counted_def split: option.splits)
  from refs_pos[OF assms(1)] c have nz: "referenceCount x \<noteq> 0"
    by (auto simp: unat_gt_0[symmetric] owners_def)
  have upd: "(handles s)[h := Some p] = handles s"
    using ha by (metis list_update_id)
  have 1: "Ref_assign h h s = Ok () s"
    using assms(1) x nz by (simp add: Ref_assign_def prims upd fun_upd_idem)
  have 2: "Ref_assign h h s = seq (set_acquire h p s) release"
    using assms(1) by (simp add: Ref_assign_def Ref_set_def)
  have 3: "set_acquire h p s =
      Ok p (s\<lparr>objects := (objects s)(p \<mapsto> x\<lparr>referenceCount := referenceCount x + 1\<rparr>)\<rparr>)"
    using assms(1) x by (simp add: set_acquire_def pre_incr_def seq_def upd)
  have 4: "referenceCount x + 1 \<noteq> 0" if "owners s p < 2 ^ 32 - 1"
  proof
    assume "referenceCount x + 1 = 0"
    then have "unat (referenceCount x + 1) = 0" by simp
    moreover have "unat (referenceCount x + 1) = unat (referenceCount x) + 1"
      using that c by (intro unat_succ) simp
    ultimately show False by simp
  qed
  from 1 2 3 4 x nz show ?thesis by (simp add: counter_def)
qed

text \<open>Self-assignment of a bound and of a void handle in the example state.\<close>

theorem self_assignment_witness:
  "object_of 0 two_bound_one_void = Some (ObjPtr 0) \<and>
   counted two_bound_one_void (ObjPtr 0) \<and>
   owners two_bound_one_void (ObjPtr 0) < 2 ^ 32 - 1 \<and>
   Ref_assign 0 0 two_bound_one_void = Ok () two_bound_one_void \<and>
   counter (final (set_acquire 0 (ObjPtr 0) two_bound_one_void)) (ObjPtr 0) = Some 3 \<and>
   object_of 2 two_bound_one_void = Some SentinelPtr \<and>
   counted two_bound_one_void SentinelPtr \<and>
   Ref_assign 2 2 two_bound_one_void = Ok () two_bound_one_void"
proof -
  have 1: "object_of 0 two_bound_one_void = Some (ObjPtr 0)"
    by (simp add: object_of_def examples)
  have 2: "counted two_bound_one_void (ObjPtr 0)"
    by (simp add: counted_def owners_def refs_def examples)
  have 3: "owners two_bound_one_void (ObjPtr 0) < 2 ^ 32 - 1"
    by (simp add: owners_def refs_def examples)
  have 4: "object_of 2 two_bound_one_void = Some SentinelPtr"
    by (simp add: object_of_def examples)
  have 5: "counted two_bound_one_void SentinelPtr"
    by (simp add: counted_def owners_def refs_def examples)
  have 6: "counter (final (set_acquire 0 (ObjPtr 0) two_bound_one_void)) (ObjPtr 0) = Some 3"
    by (simp add: set_acquire_def pre_incr_def seq_def object_of_def counter_def examples)
  from self_assignment[OF 1 2] self_assignment[OF 4 5] 1 2 3 4 5 6 show ?thesis by simp
qed

text \<open>
  C2 without the bound fails where the counter is \<open>2^32 - 1\<close>: with that many handles
  bound to the object (the counting invariant holds), the increment in \<open>set\<close> wraps the counter to 0
  before the decrement restores it.
\<close>

theorem self_assignment_counterexample:
  "is_Ok (run (FromObject (ObjPtr 0) # replicate 4294967294 (Copy 0)) fresh_object) \<and>
   object_of 0 (final (run (FromObject (ObjPtr 0) # replicate 4294967294 (Copy 0)) fresh_object))
     = Some (ObjPtr 0) \<and>
   counted (final (run (FromObject (ObjPtr 0) # replicate 4294967294 (Copy 0)) fresh_object)) (ObjPtr 0) \<and>
   counter (final (run (FromObject (ObjPtr 0) # replicate 4294967294 (Copy 0)) fresh_object)) (ObjPtr 0)
     = Some 4294967295 \<and>
   counter (final (set_acquire 0 (ObjPtr 0)
       (final (run (FromObject (ObjPtr 0) # replicate 4294967294 (Copy 0)) fresh_object)))) (ObjPtr 0)
     = Some 0"
  unfolding many_copies
  by (simp add: counter_def counted_def owners_def refs_def count_list_replicate object_of_def
      set_acquire_def pre_incr_def seq_def)

text \<open>
  C3 (for a target whose counter counts its handles).  Let handles \<open>a\<close> and \<open>b\<close> be bound
  to the same heap object, for which the counting invariant holds: its counter equals
  the number of live handles bound to it.  Then \<open>a = b\<close> returns with the state unchanged:
  the counter of the shared target is what it was, and \<open>a\<close> and \<open>b\<close> are still bound to
  that target.
\<close>

theorem assign_between_sharing_handles:
  assumes "object_of a s = Some (ObjPtr n)" "object_of b s = Some (ObjPtr n)"
    and "counted s (ObjPtr n)"
  shows "Ref_assign a b s = Ok () s \<and>
         counter (final (Ref_assign a b s)) (ObjPtr n) = counter s (ObjPtr n) \<and>
         counter s (ObjPtr n) \<noteq> None \<and>
         object_of a (final (Ref_assign a b s)) = Some (ObjPtr n) \<and>
         object_of b (final (Ref_assign a b s)) = Some (ObjPtr n)"
proof -
  note ha = object_ofD[OF assms(1)]
  from refs_pos[OF assms(1)] assms(3) obtain x where x: "objects s (ObjPtr n) = Some x"
    and c: "unat (referenceCount x) = refs s (ObjPtr n)"
    by (auto simp: counted_def owners_def split: option.splits)
  with refs_pos[OF assms(1)] have nz: "referenceCount x \<noteq> 0" by (auto simp: unat_gt_0[symmetric])
  have upd: "(handles s)[a := Some (ObjPtr n)] = handles s"
    using ha by (metis list_update_id)
  have "Ref_assign a b s = Ok () s"
    using assms(1,2) x nz
    by (simp add: Ref_assign_def prims upd fun_upd_idem)
  with assms x show ?thesis by (simp add: counter_def)
qed

text \<open>Handles 0 and 1 of the example state share the object, whose counter is 2.\<close>

theorem assign_between_sharing_handles_witness:
  "object_of 0 two_bound_one_void = Some (ObjPtr 0) \<and>
   object_of 1 two_bound_one_void = Some (ObjPtr 0) \<and>
   counted two_bound_one_void (ObjPtr 0) \<and>
   Ref_assign 0 1 two_bound_one_void = Ok () two_bound_one_void \<and>
   counter two_bound_one_void (ObjPtr 0) = Some 2"
proof -
  have 1: "object_of 0 two_bound_one_void = Some (ObjPtr 0)"
    by (simp add: object_of_def examples)
  have 2: "object_of 1 two_bound_one_void = Some (ObjPtr 0)"
    by (simp add: object_of_def examples)
  have 3: "counted two_bound_one_void (ObjPtr 0)"
    by (simp add: counted_def owners_def refs_def examples)
  have 4: "counter two_bound_one_void (ObjPtr 0) = Some 2"
    by (simp add: counter_def examples)
  from assign_between_sharing_handles[OF 1 2 3] 1 2 3 4 show ?thesis by simp
qed

text \<open>
  C3 for every pair of handles on one target fails where the counter has wrapped: after
  one construction from the object and \<open>2^32 - 1\<close> copy constructions the counter is 0
  with \<open>2^32\<close> live handles, and there \<open>a = b\<close> increments to 1, decrements to 0 and
  deletes the target both handles point to.
\<close>

theorem assign_between_sharing_handles_counterexample:
  "is_Ok (run (FromObject (ObjPtr 0) # replicate 4294967295 (Copy 0)) fresh_object) \<and>
   object_of 0 (final (run (FromObject (ObjPtr 0) # replicate 4294967295 (Copy 0)) fresh_object))
     = Some (ObjPtr 0) \<and>
   object_of 1 (final (run (FromObject (ObjPtr 0) # replicate 4294967295 (Copy 0)) fresh_object))
     = Some (ObjPtr 0) \<and>
   counter (final (run (FromObject (ObjPtr 0) # replicate 4294967295 (Copy 0)) fresh_object))
     (ObjPtr 0) = Some 0 \<and>
   is_Ok (Ref_assign 0 1
     (final (run (FromObject (ObjPtr 0) # replicate 4294967295 (Copy 0)) fresh_object))) \<and>
   counter (final (Ref_assign 0 1
     (final (run (FromObject (ObjPtr 0) # replicate 4294967295 (Copy 0)) fresh_object))))
     (ObjPtr 0) = None \<and>
   deleted (final (Ref_assign 0 1
     (final (run (FromObject (ObjPtr 0) # replicate 4294967295 (Copy 0)) fresh_object))))
     = [ObjPtr 0]"
  unfolding many_copies
  by (simp add: counter_def object_of_def Ref_assign_def prims)

text \<open>
  C4 (with a bound on the number of void handles).  Start in a state where the counting
  invariant holds for the sentinel (for instance before anything was constructed) and run any finite sequence of handle
  operations.  If in every state the run passes through fewer than \<open>2^32 - 1\<close> live
  handles are void, then in every such state: the invariant holds for the sentinel;
  if the sentinel does not exist yet, the next call of \<open>sentinel()\<close> creates it with
  counter 1, and if it exists, \<open>sentinel()\<close> changes nothing and the counter is at least 1;
  and no handle operation whatsoever fails the invariant check, that is, the check
  \<open>verify_(isNotSentinel(...))\<close> in \<open>set\<close> and in the destructor never sees the sentinel.
\<close>

theorem sentinel_counter_stays_positive:
  assumes "counted s0 SentinelPtr"
    and "\<forall>s \<in> set (states ops s0). refs s SentinelPtr < 2 ^ 32 - 1"
  shows "\<forall>s \<in> set (states ops s0).
           counted s SentinelPtr \<and>
           (case objects s SentinelPtr of
              None \<Rightarrow> sentinel s =
                (SentinelPtr, s\<lparr>objects := (objects s)(SentinelPtr \<mapsto> \<lparr>referenceCount = 1\<rparr>)\<rparr>)
            | Some x \<Rightarrow> sentinel s = (SentinelPtr, s) \<and> 1 \<le> unat (referenceCount x)) \<and>
           (\<forall>a. failure (step a s) \<noteq> Some InvariantViolation)"
proof
  fix s assume s: "s \<in> set (states ops s0)"
  from assms(2) have "\<forall>s \<in> set (states ops s0). owners s SentinelPtr < 2 ^ 32"
    by (auto simp: owners_def)
  with assms(1) have "\<forall>s \<in> set (states ops s0). counted s SentinelPtr"
    by (rule states_invariant)
  with s have c: "counted s SentinelPtr" by simp
  then have "case objects s SentinelPtr of
              None \<Rightarrow> sentinel s =
                (SentinelPtr, s\<lparr>objects := (objects s)(SentinelPtr \<mapsto> \<lparr>referenceCount = 1\<rparr>)\<rparr>)
            | Some x \<Rightarrow> sentinel s = (SentinelPtr, s) \<and> 1 \<le> unat (referenceCount x)"
    by (auto simp: counted_def owners_def sentinel_def ReferenceCounted_rc_def split: option.splits)
  with c step_never_invariant_violation[OF c]
  show "counted s SentinelPtr \<and>
           (case objects s SentinelPtr of
              None \<Rightarrow> sentinel s =
                (SentinelPtr, s\<lparr>objects := (objects s)(SentinelPtr \<mapsto> \<lparr>referenceCount = 1\<rparr>)\<rparr>)
            | Some x \<Rightarrow> sentinel s = (SentinelPtr, s) \<and> 1 \<le> unat (referenceCount x)) \<and>
           (\<forall>a. failure (step a s) \<noteq> Some InvariantViolation)"
    by simp
qed

text \<open>A run on void handles only: the counter of the sentinel goes 2, 3, 3, 3, 2, 1.\<close>

theorem sentinel_counter_stays_positive_witness:
  "counted no_objects SentinelPtr \<and>
   list_all (\<lambda>s. refs s SentinelPtr < 2 ^ 32 - 1) (states void_scenario no_objects) \<and>
   list_all (\<lambda>s. counted s SentinelPtr) (states void_scenario no_objects) \<and>
   map (\<lambda>s. (counter s SentinelPtr, refs s SentinelPtr)) (states void_scenario no_objects) =
     [(None, 0), (Some 2, 1), (Some 3, 2), (Some 3, 2), (Some 3, 2), (Some 2, 1), (Some 1, 0)]"
proof -
  have 1: "counted no_objects SentinelPtr"
    by (simp add: counted_def owners_def refs_def examples)
  have 2: "map (\<lambda>s. (counter s SentinelPtr, refs s SentinelPtr)) (states void_scenario no_objects) =
     [(None, 0), (Some 2, 1), (Some 3, 2), (Some 3, 2), (Some 3, 2), (Some 2, 1), (Some 1, 0)]"
    by (simp add: examples ops_defs prims counter_def refs_def)
  have 3: "\<forall>s \<in> set (states void_scenario no_objects). refs s SentinelPtr < 2 ^ 32 - 1"
    by (simp add: examples ops_defs prims refs_def)
  from sentinel_counter_stays_positive[OF 1 3]
  have "\<forall>s \<in> set (states void_scenario no_objects). counted s SentinelPtr" by simp
  with 1 2 3 show ?thesis
    by (simp add: list_all_iff)
qed

text \<open>
  C4 without the bound fails: after \<open>2^32 - 1\<close> default constructions the
  counter of the sentinel has wrapped to 0; and after \<open>2^32\<close> of them, destructing one
  void handle takes the deletion branch for the sentinel and fails the check there.
\<close>

theorem sentinel_counter_stays_positive_counterexample:
  "is_Ok (run (replicate 4294967295 Default) no_objects) \<and>
   counter (final (run (replicate 4294967295 Default) no_objects)) SentinelPtr = Some 0 \<and>
   failure (run (replicate 4294967296 Default @ [Destroy 0]) no_objects) = Some InvariantViolation"
proof -
  have a: "run (replicate 4294967296 Default @ [Destroy 0]) no_objects
         = seq (run (replicate (Suc 4294967295) Default) no_objects) (\<lambda>u s'. run [Destroy 0] s')"
    using run_append[of "replicate 4294967296 Default" "[Destroy 0]" no_objects]
    by (simp only: Suc_numerals(2))
  have b: "run (replicate 4294967295 Default) no_objects = run (replicate (Suc 4294967294) Default) no_objects"
    by (simp only: Suc_numerals(1))
  show ?thesis
    unfolding a b many_defaults
    by (simp add: seq_def counter_def Ref_destroy_def object_of_def prims)
qed

text \<open>
  C5.  For an existing object, \<open>free()\<close> returns exactly when the counter is 0 and the
  object is not the sentinel, and exactly then the object is gone afterwards (and is
  recorded as deleted).  With a nonzero counter the call stops the program at the
  precondition check, and on the sentinel with counter 0 at the invariant check; in both
  cases the state is left as it was and nothing is returned.
\<close>

theorem free_contract:
  assumes "objects s this = Some x"
  shows "(is_Ok (free this s) \<longleftrightarrow> referenceCount x = 0 \<and> this \<noteq> SentinelPtr) \<and>
         (objects (final (free this s)) this = None \<longleftrightarrow> referenceCount x = 0 \<and> this \<noteq> SentinelPtr) \<and>
         (referenceCount x \<noteq> 0 \<longrightarrow> free this s = Abort PreconditionViolation s) \<and>
         (referenceCount x = 0 \<and> this = SentinelPtr \<longrightarrow> free this s = Abort InvariantViolation s) \<and>
         (referenceCount x = 0 \<and> this \<noteq> SentinelPtr \<longrightarrow>
            free this s = Ok () ((snd (sentinel s))\<lparr>objects := (objects (snd (sentinel s)))(this := None),
                                                  deleted := deleted s @ [this]\<rparr>))"
  using assms by (auto simp: prims split: option.splits)

text \<open>A fresh object is released; an object with counter 2 is not.\<close>

theorem free_contract_witness:
  "objects fresh_object (ObjPtr 0) = Some \<lparr>referenceCount = 0\<rparr> \<and>
   is_Ok (free (ObjPtr 0) fresh_object) \<and>
   objects (final (free (ObjPtr 0) fresh_object)) (ObjPtr 0) = None \<and>
   objects two_bound_one_void (ObjPtr 0) = Some \<lparr>referenceCount = 2\<rparr> \<and>
   free (ObjPtr 0) two_bound_one_void = Abort PreconditionViolation two_bound_one_void"
proof -
  have 1: "objects fresh_object (ObjPtr 0) = Some \<lparr>referenceCount = 0\<rparr>"
    by (simp add: examples)
  have 2: "objects two_bound_one_void (ObjPtr 0) = Some \<lparr>referenceCount = 2\<rparr>"
    by (simp add: examples)
  from free_contract[OF 1] free_contract[OF 2] 1 2 show ?thesis by simp
qed

text \<open>
  C6.  For a live handle, \<open>operator*\<close> and \<open>operator->\<close> fail exactly when the target is
  the sentinel, and then with a precondition violation; otherwise they yield the target.
  They leave every handle, every existing object with its counter, and the deletion
  record as they were, and a failed dereference of a void handle (whose sentinel
  exists) stops in exactly the state it started in.
\<close>

theorem dereference_contract:
  assumes "object_of h s = Some p"
  shows "(is_Ok (operator_star h s) \<longleftrightarrow> p \<noteq> SentinelPtr) \<and>
         (is_Ok (operator_arrow h s) \<longleftrightarrow> p \<noteq> SentinelPtr) \<and>
         (p = SentinelPtr \<longrightarrow>
            failure (operator_star h s) = Some PreconditionViolation \<and>
            failure (operator_arrow h s) = Some PreconditionViolation) \<and>
         (p \<noteq> SentinelPtr \<longrightarrow>
            returned (operator_star h s) = Some p \<and> returned (operator_arrow h s) = Some p) \<and>
         (p = SentinelPtr \<and> objects s SentinelPtr \<noteq> None \<longrightarrow>
            operator_star h s = Abort PreconditionViolation s \<and>
            operator_arrow h s = Abort PreconditionViolation s) \<and>
         handles (final (operator_star h s)) = handles s \<and>
         handles (final (operator_arrow h s)) = handles s \<and>
         deleted (final (operator_star h s)) = deleted s \<and>
         deleted (final (operator_arrow h s)) = deleted s \<and>
         (\<forall>q y. objects s q = Some y \<longrightarrow>
            objects (final (operator_star h s)) q = Some y \<and>
            objects (final (operator_arrow h s)) q = Some y)"
  using assms by (auto simp: operator_star_def operator_arrow_def prims split: option.splits)

text \<open>Dereferencing the void handle 2 fails and the bound handle 0 yields the object.\<close>

theorem dereference_contract_witness:
  "object_of 2 two_bound_one_void = Some SentinelPtr \<and>
   objects two_bound_one_void SentinelPtr \<noteq> None \<and>
   operator_star 2 two_bound_one_void = Abort PreconditionViolation two_bound_one_void \<and>
   operator_arrow 2 two_bound_one_void = Abort PreconditionViolation two_bound_one_void \<and>
   object_of 0 two_bound_one_void = Some (ObjPtr 0) \<and>
   returned (operator_star 0 two_bound_one_void) = Some (ObjPtr 0) \<and>
   returned (operator_arrow 0 two_bound_one_void) = Some (ObjPtr 0)"
proof -
  have 1: "object_of 2 two_bound_one_void = Some SentinelPtr"
    by (simp add: object_of_def examples)
  have 2: "objects two_bound_one_void SentinelPtr \<noteq> None"
    by (simp add: examples)
  have 3: "object_of 0 two_bound_one_void = Some (ObjPtr 0)"
    by (simp add: object_of_def examples)
  from dereference_contract[OF 1] dereference_contract[OF 3] 1 2 3 show ?thesis by simp
qed

text \<open>
  C7.  \<open>reset()\<close> on a live handle whose target exists always returns and leaves the
  handle void.  If the handle was bound, the counter of the old target is decremented,
  the old target is deleted exactly when the decremented counter is 0, the handle points
  to the sentinel, and the counter of the sentinel (1 if \<open>reset\<close> is what creates it) is
  incremented; nothing else changes.  If the handle was void, the state is unchanged.
  A second \<open>reset()\<close> changes nothing.
\<close>

theorem reset_contract:
  assumes "object_of h s = Some p" "objects s p = Some x"
  shows "is_Ok (Ref_reset h s) \<and>
         object_of h (final (Ref_reset h s)) = Some SentinelPtr \<and>
         (p \<noteq> SentinelPtr \<longrightarrow>
            handles (final (Ref_reset h s)) = (handles s)[h := Some SentinelPtr] \<and>
            counter (final (Ref_reset h s)) p =
              (if referenceCount x - 1 = 0 then None else Some (referenceCount x - 1)) \<and>
            deleted (final (Ref_reset h s)) =
              (if referenceCount x - 1 = 0 then deleted s @ [p] else deleted s) \<and>
            counter (final (Ref_reset h s)) SentinelPtr =
              Some ((case counter s SentinelPtr of None \<Rightarrow> 1 | Some c \<Rightarrow> c) + 1) \<and>
            (\<forall>q. q \<noteq> p \<and> q \<noteq> SentinelPtr \<longrightarrow>
               objects (final (Ref_reset h s)) q = objects s q)) \<and>
         (p = SentinelPtr \<longrightarrow> Ref_reset h s = Ok () s) \<and>
         Ref_reset h (final (Ref_reset h s)) = Ok () (final (Ref_reset h s))"
  using assms object_ofD[OF assms(1)]
  by (auto simp: Ref_reset_def counter_def object_of_def prims split: option.splits)

text \<open>Resetting the bound handle 0 and the void handle 2 of the example state.\<close>

theorem reset_contract_witness:
  "object_of 0 two_bound_one_void = Some (ObjPtr 0) \<and>
   objects two_bound_one_void (ObjPtr 0) = Some \<lparr>referenceCount = 2\<rparr> \<and>
   is_Ok (Ref_reset 0 two_bound_one_void) \<and>
   object_of 0 (final (Ref_reset 0 two_bound_one_void)) = Some SentinelPtr \<and>
   counter (final (Ref_reset 0 two_bound_one_void)) (ObjPtr 0) = Some 1 \<and>
   counter (final (Ref_reset 0 two_bound_one_void)) SentinelPtr = Some 3 \<and>
   deleted (final (Ref_reset 0 two_bound_one_void)) = [] \<and>
   Ref_reset 0 (final (Ref_reset 0 two_bound_one_void)) = Ok () (final (Ref_reset 0 two_bound_one_void)) \<and>
   object_of 2 two_bound_one_void = Some SentinelPtr \<and>
   objects two_bound_one_void SentinelPtr = Some \<lparr>referenceCount = 2\<rparr> \<and>
   Ref_reset 2 two_bound_one_void = Ok () two_bound_one_void"
proof -
  have 1: "object_of 0 two_bound_one_void = Some (ObjPtr 0)"
    by (simp add: object_of_def examples)
  have 2: "objects two_bound_one_void (ObjPtr 0) = Some \<lparr>referenceCount = 2\<rparr>"
    by (simp add: examples)
  have 3: "object_of 2 two_bound_one_void = Some SentinelPtr"
    by (simp add: object_of_def examples)
  have 4: "objects two_bound_one_void SentinelPtr = Some \<lparr>referenceCount = 2\<rparr>"
    by (simp add: examples)
  have 5: "counter two_bound_one_void SentinelPtr = Some 2"
    by (simp add: counter_def examples)
  have 6: "deleted two_bound_one_void = []"
    by (simp add: examples)
  from reset_contract[OF 1 2] reset_contract[OF 3 4] 1 2 3 4 5 6 show ?thesis by simp
qed

text \<open>
  C8 (for any existing object, the sentinel included).  Constructing a handle from a
  non-null pointer to an existing object returns a new handle with that target and adds
  exactly one (in 32-bit arithmetic) to the counter of the target; nothing else changes.
  The new handle tests as non-void exactly when the pointer is not the address of the
  sentinel.  Constructing from a null pointer stops the program at the precondition
  check, with every counter untouched.  \<open>ref(o)\<close> is the same function.
\<close>

theorem construct_from_pointer:
  assumes "p \<noteq> Null" and "objects s p = Some x"
  shows "Ref_from_object p s =
           Ok (length (handles s))
              (s\<lparr>objects := (objects s)(p \<mapsto> x\<lparr>referenceCount := referenceCount x + 1\<rparr>),
                 handles := handles s @ [Some p]\<rparr>) \<and>
         object_of (length (handles s)) (final (Ref_from_object p s)) = Some p \<and>
         returned (operator_bool (length (handles s)) (final (Ref_from_object p s))) =
           Some (p \<noteq> SentinelPtr) \<and>
         counter (final (Ref_from_object p s)) p = Some (referenceCount x + 1) \<and>
         failure (Ref_from_object Null s) = Some PreconditionViolation \<and>
         objects (final (Ref_from_object Null s)) = objects s \<and>
         ref p s = Ref_from_object p s \<and>
         ref Null s = Ref_from_object Null s"
  using assms
  by (auto simp: Ref_from_object_def ref_def operator_bool_def counter_def object_of_def prims
      split: option.splits)

text \<open>The first handle on a fresh object.\<close>

theorem construct_from_pointer_witness:
  "ObjPtr 0 \<noteq> Null \<and>
   objects fresh_object (ObjPtr 0) = Some \<lparr>referenceCount = 0\<rparr> \<and>
   returned (Ref_from_object (ObjPtr 0) fresh_object) = Some 0 \<and>
   object_of 0 (final (Ref_from_object (ObjPtr 0) fresh_object)) = Some (ObjPtr 0) \<and>
   returned (operator_bool 0 (final (Ref_from_object (ObjPtr 0) fresh_object))) = Some True \<and>
   counter (final (Ref_from_object (ObjPtr 0) fresh_object)) (ObjPtr 0) = Some 1 \<and>
   failure (Ref_from_object Null fresh_object) = Some PreconditionViolation"
proof -
  have 0: "ObjPtr 0 \<noteq> Null" by simp
  have 1: "objects fresh_object (ObjPtr 0) = Some \<lparr>referenceCount = 0\<rparr>"
    by (simp add: examples)
  have 2: "length (handles fresh_object) = 0"
    by (simp add: examples)
  have 3: "returned (Ref_from_object (ObjPtr 0) fresh_object) = Some 0"
    using construct_from_pointer[OF 0 1] 2 by simp
  have "object_of 0 (final (Ref_from_object (ObjPtr 0) fresh_object)) = Some (ObjPtr 0) \<and>
   returned (operator_bool 0 (final (Ref_from_object (ObjPtr 0) fresh_object))) = Some True \<and>
   counter (final (Ref_from_object (ObjPtr 0) fresh_object)) (ObjPtr 0) = Some 1 \<and>
   failure (Ref_from_object Null fresh_object) = Some PreconditionViolation"
    using construct_from_pointer[OF 0 1] 1 2 by auto
  with 1 3 show ?thesis by simp
qed

text \<open>
  C8 for every non-null pointer fails at the address of the sentinel, which \<open>_get()\<close>
  hands out: the constructor accepts it and counts it, but the new handle is void.
\<close>

theorem construct_from_pointer_counterexample:
  "SentinelPtr \<noteq> Null \<and>
   counted two_bound_one_void SentinelPtr \<and>
   is_Ok (Ref_from_object SentinelPtr two_bound_one_void) \<and>
   object_of 3 (final (Ref_from_object SentinelPtr two_bound_one_void)) = Some SentinelPtr \<and>
   counter (final (Ref_from_object SentinelPtr two_bound_one_void)) SentinelPtr = Some 3 \<and>
   operator_bool 3 (final (Ref_from_object SentinelPtr two_bound_one_void)) =
     Ok False (final (Ref_from_object SentinelPtr two_bound_one_void))"
  by (simp add: examples Ref_from_object_def operator_bool_def object_of_def counter_def
      counted_def owners_def refs_def prims)

text \<open>
  C9.  Copy-constructing a \<open>ReferenceCounted\<close> gives the copy a counter of 0, whatever the
  counter of the original is, and copy-assignment leaves the counter of the assigned-to
  object as it was.
\<close>

theorem copy_never_copies_counter:
  "refCount (ReferenceCounted_copy other) = 0 \<and>
   refCount (ReferenceCounted_assign this other) = refCount this"
  by (simp add: refCount_def ReferenceCounted_copy_def ReferenceCounted_assign_def)

text \<open>
  C10.  For a void handle (the sentinel exists), \<open>_get()\<close> returns the address of the
  sentinel, which is not null, while \<open>get()\<close> returns null.  Passing the result of
  \<open>_get()\<close> to the constructor from a pointer passes the non-null check, adds one to the
  counter of the sentinel, and gives a handle for which \<open>operator bool\<close> is false.
\<close>

theorem raw_pointer_exposes_sentinel:
  assumes "object_of h s = Some SentinelPtr" "objects s SentinelPtr = Some x"
  shows "Ref__get h s = Ok SentinelPtr s \<and>
         Ref_get h s = Ok Null s \<and>
         SentinelPtr \<noteq> Null \<and>
         Ref_from_object SentinelPtr s =
           Ok (length (handles s))
              (s\<lparr>objects := (objects s)(SentinelPtr \<mapsto> x\<lparr>referenceCount := referenceCount x + 1\<rparr>),
                 handles := handles s @ [Some SentinelPtr]\<rparr>) \<and>
         returned (operator_bool (length (handles s)) (final (Ref_from_object SentinelPtr s))) = Some False \<and>
         returned (seq (Ref__get h s) (\<lambda>p s1. seq (Ref_from_object p s1) (\<lambda>k s2. operator_bool k s2)))
           = Some False"
  using assms
  by (auto simp: Ref_from_object_def Ref__get_def Ref_get_def operator_bool_def object_of_def prims
      split: option.splits)

text \<open>The void handle 2 of the example state.\<close>

theorem raw_pointer_exposes_sentinel_witness:
  "object_of 2 two_bound_one_void = Some SentinelPtr \<and>
   objects two_bound_one_void SentinelPtr = Some \<lparr>referenceCount = 2\<rparr> \<and>
   Ref__get 2 two_bound_one_void = Ok SentinelPtr two_bound_one_void \<and>
   Ref_get 2 two_bound_one_void = Ok Null two_bound_one_void \<and>
   returned (Ref_from_object SentinelPtr two_bound_one_void) = Some 3 \<and>
   returned (operator_bool 3 (final (Ref_from_object SentinelPtr two_bound_one_void))) = Some False"
proof -
  have 1: "object_of 2 two_bound_one_void = Some SentinelPtr"
    by (simp add: object_of_def examples)
  have 2: "objects two_bound_one_void SentinelPtr = Some \<lparr>referenceCount = 2\<rparr>"
    by (simp add: examples)
  have 3: "length (handles two_bound_one_void) = 3"
    by (simp add: examples)
  have 4: "returned (Ref_from_object SentinelPtr two_bound_one_void) = Some 3"
    using raw_pointer_exposes_sentinel[OF 1 2] 3 by simp
  have "Ref__get 2 two_bound_one_void = Ok SentinelPtr two_bound_one_void \<and>
   Ref_get 2 two_bound_one_void = Ok Null two_bound_one_void \<and>
   returned (operator_bool 3 (final (Ref_from_object SentinelPtr two_bound_one_void))) = Some False"
    using raw_pointer_exposes_sentinel[OF 1 2] unfolding 3 by blast
  with 1 2 4 show ?thesis by simp
qed

end
